theory Spec2Isabelle
  imports Main
begin

section \<open>Python values\<close>

text \<open>
  The values that travel between \<^verbatim>\<open>run_agent.py\<close> and the Composio client. A dictionary is an
  association list with string keys (lookup takes the first binding); \<open>PObj\<close> is an object that
  is not a dictionary, given by its attributes. Characters are the code points U+0000 to U+00FF.
\<close>

datatype pyval =
    PNone
  | PBool bool
  | PInt int
  | PStr string
  | PList "pyval list"
  | PDict "(string \<times> pyval) list"
  | PObj "(string \<times> pyval) list"

text \<open>\<^verbatim>\<open>d.get(key, default)\<close>\<close>

definition dict_get :: "(string \<times> pyval) list \<Rightarrow> string \<Rightarrow> pyval \<Rightarrow> pyval" where
  "dict_get d key dflt = (case map_of d key of None \<Rightarrow> dflt | Some v \<Rightarrow> v)"

text \<open>
  The attribute \<open>name\<close> of a value, for the three names the wrapper reads
  (\<^verbatim>\<open>successful\<close>, \<^verbatim>\<open>data\<close>, \<^verbatim>\<open>error\<close>): an object has the attributes it was given; None,
  booleans, integers, strings, lists and dictionaries have none of the three.
\<close>

fun attribute :: "pyval \<Rightarrow> string \<Rightarrow> pyval option" where
  "attribute (PObj attrs) name = map_of attrs name"
| "attribute v name = None"

text \<open>\<^verbatim>\<open>getattr(v, name, default)\<close>\<close>

definition getattr :: "pyval \<Rightarrow> string \<Rightarrow> pyval \<Rightarrow> pyval" where
  "getattr v name dflt = (case attribute v name of None \<Rightarrow> dflt | Some a \<Rightarrow> a)"

text \<open>
  Truth value of a Python value. An object is true (the class defines neither
  \<^verbatim>\<open>__bool__\<close> nor \<^verbatim>\<open>__len__\<close>).
\<close>

fun truthy :: "pyval \<Rightarrow> bool" where
  "truthy PNone = False"
| "truthy (PBool b) = b"
| "truthy (PInt i) = (i \<noteq> 0)"
| "truthy (PStr s) = (s \<noteq> [])"
| "truthy (PList xs) = (xs \<noteq> [])"
| "truthy (PDict d) = (d \<noteq> [])"
| "truthy (PObj attrs) = True"

text \<open>\<^verbatim>\<open>a or b\<close>\<close>

definition py_or :: "pyval \<Rightarrow> pyval \<Rightarrow> pyval" where
  "py_or a b = (if truthy a then a else b)"

section \<open>Rendering of strings\<close>

definition hex_digit :: "nat \<Rightarrow> char" where
  "hex_digit n = ''0123456789abcdef'' ! (n mod 16)"

definition hex_escape :: "char \<Rightarrow> string" where
  "hex_escape c = [CHR 0x5C, CHR ''x'', hex_digit (of_char c div 16), hex_digit (of_char c mod 16)]"

text \<open>\<^verbatim>\<open>str.isprintable\<close> on one code point below U+0100.\<close>

definition printable :: "char \<Rightarrow> bool" where
  "printable c = (let n = (of_char c :: nat) in
     (32 \<le> n \<and> n < 127) \<or> (160 < n \<and> n \<noteq> 173))"

definition repr_char :: "char \<Rightarrow> char \<Rightarrow> string" where
  "repr_char quote c =
     (if c = quote \<or> c = CHR 0x5C then [CHR 0x5C, c]
      else if c = CHR 0x09 then [CHR 0x5C, CHR ''t'']
      else if c = CHR 0x0A then [CHR 0x5C, CHR ''n'']
      else if c = CHR 0x0D then [CHR 0x5C, CHR ''r'']
      else if printable c then [c]
      else hex_escape c)"

text \<open>\<^verbatim>\<open>repr(s)\<close> of a string: double quotes only when the string has a single quote and no double quote.\<close>

definition repr_str :: "string \<Rightarrow> string" where
  "repr_str s =
     (let quote = (if CHR 0x27 \<in> set s \<and> CHR 0x22 \<notin> set s then CHR 0x22 else CHR 0x27)
      in [quote] @ concat (map (repr_char quote) s) @ [quote])"

text \<open>\<^verbatim>\<open>sep.join(parts)\<close>\<close>

fun join :: "string \<Rightarrow> string list \<Rightarrow> string" where
  "join sep [] = []"
| "join sep [x] = x"
| "join sep (x # y # ys) = x @ sep @ join sep (y # ys)"

text \<open>The \<^verbatim>\<open>attempts\<close> list, a list of pairs of strings, as an f-string renders it.\<close>

definition repr_attempts :: "(string \<times> string) list \<Rightarrow> string" where
  "repr_attempts attempts =
     ''['' @ join '', '' (map (\<lambda>(a, b). ''('' @ repr_str a @ '', '' @ repr_str b @ '')'') attempts) @ '']''"

section \<open>The Composio client\<close>

text \<open>
  One invocation of \<^verbatim>\<open>client.tools.execute\<close>: its positional and its keyword arguments, in
  the order written.
\<close>

datatype call = Call (positional: "pyval list") (kwargs: "(string \<times> pyval) list")

text \<open>
  What the two \<^verbatim>\<open>except\<close> clauses of \<^verbatim>\<open>execute_tool\<close> tell apart: an instance of
  \<^verbatim>\<open>TypeError\<close>, an instance of \<^verbatim>\<open>Exception\<close> that is not a \<^verbatim>\<open>TypeError\<close>, and an exception
  outside \<^verbatim>\<open>Exception\<close> (\<^verbatim>\<open>KeyboardInterrupt\<close>, \<^verbatim>\<open>SystemExit\<close>, \<^verbatim>\<open>GeneratorExit\<close>).
  \<open>message\<close> is \<^verbatim>\<open>str(e)\<close> and \<open>trace\<close> is what \<^verbatim>\<open>traceback.format_exc()\<close> returns in the handler.
\<close>

datatype exc_class = TypeError | Exception | BaseException

datatype exc = Exc (cls: exc_class) (message: string) (trace: string)

datatype outcome = Returns pyval | Raises exc

text \<open>The client is a deterministic machine over a state of the remote side.\<close>

type_synonym 's client = "call \<Rightarrow> 's \<Rightarrow> outcome \<times> 's"

section \<open>\<^verbatim>\<open>ComposioWrapper.execute_tool\<close>\<close>

text \<open>\<^verbatim>\<open>{"ok": ok, "data": data, "error": err}\<close>\<close>

definition result_dict :: "pyval \<Rightarrow> pyval \<Rightarrow> pyval \<Rightarrow> pyval" where
  "result_dict ok_v data_v err_v = PDict [(''ok'', ok_v), (''data'', data_v), (''error'', err_v)]"

text \<open>The six lambdas of \<^verbatim>\<open>forms\<close>, in order.\<close>

definition forms :: "string \<Rightarrow> pyval \<Rightarrow> pyval \<Rightarrow> call list" where
  "forms tool_slug user_id arguments =
     [Call [] [(''slug'', PStr tool_slug), (''user_id'', user_id), (''arguments'', arguments)],
      Call [] [(''slug'', PStr tool_slug), (''arguments'', arguments), (''user_id'', user_id)],
      Call [PStr tool_slug, user_id, arguments] [],
      Call [PStr tool_slug, arguments, user_id] [],
      Call [user_id, PStr tool_slug, arguments] [],
      Call [] [(''slug'', PStr tool_slug), (''args'', arguments), (''user_id'', user_id)]]"

text \<open>
  The body of the \<^verbatim>\<open>try\<close>, after \<^verbatim>\<open>resp = f()\<close> has returned: the first equation is
  the branch \<^verbatim>\<open>isinstance(resp, dict)\<close>, the second the \<^verbatim>\<open>else\<close>.
\<close>

fun normalize :: "pyval \<Rightarrow> pyval" where
  "normalize (PDict d) =
     result_dict (dict_get d ''successful'' (PBool True))
                 (dict_get d ''data'' (PDict d))
                 (dict_get d ''error'' PNone)"
| "normalize resp =
     result_dict (getattr resp ''successful'' (PBool True))
                 (py_or (getattr resp ''data'' PNone) resp)
                 (getattr resp ''error'' PNone)"

text \<open>\<^verbatim>\<open>str(last_exc)\<close>\<close>

definition str_last_exc :: "exc option \<Rightarrow> string" where
  "str_last_exc last_exc = (case last_exc of None \<Rightarrow> ''None'' | Some e \<Rightarrow> message e)"

text \<open>
  The \<^verbatim>\<open>for f in forms\<close> loop with its two handlers. \<open>Inl\<close> is an exception that leaves
  \<^verbatim>\<open>execute_tool\<close>; \<open>Inr\<close> is the returned dictionary.
\<close>

fun try_forms ::
  "'s client \<Rightarrow> call list \<Rightarrow> exc option \<Rightarrow> (string \<times> string) list \<Rightarrow> 's \<Rightarrow> (exc + pyval) \<times> 's"
where
  "try_forms client [] last_exc attempts s =
     (Inr (result_dict (PBool False) PNone
        (PStr (''All execute attempts failed. Last TypeError: '' @ str_last_exc last_exc
               @ ''; attempts: '' @ repr_attempts attempts))), s)"
| "try_forms client (f # fs) last_exc attempts s =
     (case client f s of
        (Returns resp, s') \<Rightarrow> (Inr (normalize resp), s')
      | (Raises e, s') \<Rightarrow>
          (case cls e of
             TypeError \<Rightarrow> try_forms client fs (Some e) (attempts @ [(''TypeError'', message e)]) s'
           | Exception \<Rightarrow>
               (Inr (result_dict (PBool False) PNone (PStr (message e @ [CHR 0x0A] @ trace e))), s')
           | BaseException \<Rightarrow> (Inl e, s')))"

definition execute_tool ::
  "'s client \<Rightarrow> pyval \<Rightarrow> string \<Rightarrow> pyval \<Rightarrow> 's \<Rightarrow> (exc + pyval) \<times> 's"
where
  "execute_tool client user_id tool_slug arguments s =
     try_forms client (forms tool_slug user_id arguments) None [] s"

text \<open>
  A client that also records every invocation it receives, the way a test double does:
  the record is how a theorem says which strategies were attempted.
\<close>

definition recording :: "'s client \<Rightarrow> ('s \<times> call list) client" where
  "recording client c = (\<lambda>(s, seen). case client c s of (out, s') \<Rightarrow> (out, (s', seen @ [c])))"

text \<open>The outcomes of feeding a list of invocations to the client one after the other.\<close>

fun outcomes :: "'s client \<Rightarrow> call list \<Rightarrow> 's \<Rightarrow> outcome list" where
  "outcomes client [] s = []"
| "outcomes client (c # cs) s = (case client c s of (out, s') \<Rightarrow> out # outcomes client cs s')"

fun is_type_error :: "outcome \<Rightarrow> bool" where
  "is_type_error (Raises e) = (cls e = TypeError)"
| "is_type_error (Returns v) = False"

section \<open>Text: lines, words, the header pattern\<close>

text \<open>
  \<^verbatim>\<open>str.isspace\<close> on one code point below U+0100; \<^verbatim>\<open>strip\<close>, \<^verbatim>\<open>split\<close> and the pattern's
  \<^verbatim>\<open>\s\<close> all use it.
\<close>

definition is_space :: "char \<Rightarrow> bool" where
  "is_space c = (let n = (of_char c :: nat) in
     (9 \<le> n \<and> n \<le> 13) \<or> (28 \<le> n \<and> n \<le> 32) \<or> n = 133 \<or> n = 160)"

text \<open>The line boundaries of \<^verbatim>\<open>str.splitlines\<close> below U+0100, other than the carriage return.\<close>

definition is_linebreak :: "char \<Rightarrow> bool" where
  "is_linebreak c = (let n = (of_char c :: nat) in
     n = 10 \<or> n = 11 \<or> n = 12 \<or> (28 \<le> n \<and> n \<le> 30) \<or> n = 133)"

text \<open>The pattern's \<^verbatim>\<open>\d\<close> below U+0100.\<close>

definition is_digit :: "char \<Rightarrow> bool" where
  "is_digit c = (let n = (of_char c :: nat) in 48 \<le> n \<and> n \<le> 57)"

definition lower_char :: "char \<Rightarrow> char" where
  "lower_char c = (let n = (of_char c :: nat) in
     if (65 \<le> n \<and> n \<le> 90) \<or> (192 \<le> n \<and> n \<le> 222 \<and> n \<noteq> 215) then char_of (n + 32) else c)"

text \<open>\<^verbatim>\<open>s.lower()\<close>\<close>

definition lower :: "string \<Rightarrow> string" where
  "lower s = map lower_char s"

text \<open>
  \<^verbatim>\<open>text.splitlines()\<close>: \<open>cur\<close> is the line being read. A carriage return followed by a
  line feed is one boundary; a last line that is empty is not returned.
\<close>

fun splitlines_from :: "string \<Rightarrow> string \<Rightarrow> string list" where
  "splitlines_from cur [] = (if cur = [] then [] else [cur])"
| "splitlines_from cur (c # cs) =
     (if c = CHR 0x0D then
        (case cs of
           [] \<Rightarrow> [cur]
         | d # ds \<Rightarrow> if d = CHR 0x0A then cur # splitlines_from [] ds
                     else cur # splitlines_from [] (d # ds))
      else if is_linebreak c then cur # splitlines_from [] cs
      else splitlines_from (cur @ [c]) cs)"

definition splitlines :: "string \<Rightarrow> string list" where
  "splitlines text = splitlines_from [] text"

text \<open>\<^verbatim>\<open>s.strip()\<close>\<close>

definition strip :: "string \<Rightarrow> string" where
  "strip s = rev (dropWhile is_space (rev (dropWhile is_space s)))"

text \<open>\<^verbatim>\<open>text.split()\<close>: the maximal runs of characters that are not whitespace.\<close>

fun split_from :: "string \<Rightarrow> string \<Rightarrow> string list" where
  "split_from cur [] = (if cur = [] then [] else [cur])"
| "split_from cur (c # cs) =
     (if is_space c then (if cur = [] then split_from [] cs else cur # split_from [] cs)
      else split_from (cur @ [c]) cs)"

definition split :: "string \<Rightarrow> string list" where
  "split text = split_from [] text"

text \<open>
  The common prefix \<^verbatim>\<open>^(Week\s*\d+)\<close> of the two patterns, matched at the start of the line
  with \<^verbatim>\<open>re.I\<close>: group 1 and what follows it. \<^verbatim>\<open>\s*\<close> and \<^verbatim>\<open>\d+\<close> are greedy, and giving
  back whitespace never helps (what follows the whitespace must be a digit), so the match,
  when there is one, takes all the whitespace and all the digits.
\<close>

definition week_prefix :: "string \<Rightarrow> (string \<times> string) option" where
  "week_prefix line =
     (if length line \<ge> 4 \<and> lower (take 4 line) = ''week'' then
        (let after_word = drop 4 line;
             spaces = takeWhile is_space after_word;
             digits = takeWhile is_digit (dropWhile is_space after_word);
             rest = dropWhile is_digit (dropWhile is_space after_word)
         in if digits = [] then None else Some (take 4 line @ spaces @ digits, rest))
      else None)"

text \<open>\<^verbatim>\<open>re.match(r'^(Week\s*\d+)', line, re.I)\<close> as a truth value.\<close>

definition is_header :: "string \<Rightarrow> bool" where
  "is_header line = (week_prefix line \<noteq> None)"

text \<open>
  \<^verbatim>\<open>re.match(r'^(Week\s*\d+)\s*[:\-]?\s*(.*)', line, re.I)\<close>: groups 1 and 2. After group 1
  every part of the pattern may match the empty string, so the greedy choice stands:
  all the whitespace, one colon or hyphen if there is one, all the whitespace, then every
  character up to a line feed.
\<close>

definition match_header :: "string \<Rightarrow> (string \<times> string) option" where
  "match_header line =
     (case week_prefix line of
        None \<Rightarrow> None
      | Some (header, rest) \<Rightarrow>
          (let r1 = dropWhile is_space rest;
               r2 = (case r1 of [] \<Rightarrow> []
                     | c # cs \<Rightarrow> if c = CHR '':'' \<or> c = CHR ''-'' then cs else c # cs);
               r3 = dropWhile is_space r2
           in Some (header, takeWhile (\<lambda>c. c \<noteq> CHR 0x0A) r3)))"

section \<open>\<^verbatim>\<open>parse_lessons\<close>\<close>

datatype py_error = ZeroDivisionError | OverflowError | ValueError | KeyError

type_synonym lesson = "string \<times> string"

text \<open>
  The \<^verbatim>\<open>while i < len(lines)\<close> loop, on the lines from index \<open>i\<close> on. At a header the inner
  loop takes the lines up to the next header, and the outer loop goes on from there.
\<close>

function scan_lines :: "string list \<Rightarrow> lesson list" where
  "scan_lines [] = []"
| "scan_lines (ln # lns) =
     (case match_header ln of
        Some (header, g2) \<Rightarrow>
          (let rem = strip g2;
               desc_parts = (if rem \<noteq> [] then [rem] else []) @ takeWhile (\<lambda>x. \<not> is_header x) lns
           in (header, strip (join '' '' desc_parts))
                # scan_lines (dropWhile (\<lambda>x. \<not> is_header x) lns))
      | None \<Rightarrow> scan_lines lns)"
  by pat_completeness auto
termination
  by (relation "measure length") (auto simp: less_Suc_eq_le length_dropWhile_le)

text \<open>The decimal digits of \<^verbatim>\<open>str(n)\<close> for \<open>n \<ge> 0\<close>.\<close>

function str_nat :: "nat \<Rightarrow> string" where
  "str_nat n = (if n < 10 then [char_of (48 + n)] else str_nat (n div 10) @ [char_of (48 + n mod 10)])"
  by pat_completeness auto
termination
  by (relation "measure id") auto

text \<open>\<^verbatim>\<open>xs[start:end]\<close> for \<open>0 \<le> start\<close> and \<open>0 \<le> end\<close>.\<close>

definition slice :: "'a list \<Rightarrow> int \<Rightarrow> int \<Rightarrow> 'a list" where
  "slice xs start end = drop (nat start) (take (nat end) xs)"

text \<open>\<^verbatim>\<open>xs[:n]\<close>: a negative \<open>n\<close> counts from the end.\<close>

definition slice_to :: "'a list \<Rightarrow> int \<Rightarrow> 'a list" where
  "slice_to xs n = (if n \<ge> 0 then take (nat n) xs else take (length xs - nat (- n)) xs)"

text \<open>One turn of \<^verbatim>\<open>for k in range(max_lessons)\<close>.\<close>

definition chunk_lesson :: "string list \<Rightarrow> int \<Rightarrow> int \<Rightarrow> nat \<Rightarrow> lesson" where
  "chunk_lesson words chunk max_lessons k =
     (let start = int k * chunk;
          end = (if int k < max_lessons - 1 then start + chunk else int (length words))
      in (''Week '' @ str_nat (k + 1), join '' '' (slice words start end)))"

definition equal_chunks :: "string list \<Rightarrow> int \<Rightarrow> lesson list" where
  "equal_chunks words max_lessons =
     (let chunk = max (int (length words) div max_lessons) 1
      in map (chunk_lesson words chunk max_lessons) [0 ..< nat max_lessons])"

definition stripped_lines :: "string \<Rightarrow> string list" where
  "stripped_lines text = map strip (filter (\<lambda>ln. strip ln \<noteq> []) (splitlines text))"

definition parse_lessons :: "string \<Rightarrow> int \<Rightarrow> py_error + lesson list" where
  "parse_lessons text max_lessons =
     (let lessons = scan_lines (stripped_lines text)
      in if lessons = [] then
           (let words = split text
            in if length words = 0 then Inr []
               else if max_lessons = 0 then Inl ZeroDivisionError
               else Inr (slice_to (equal_chunks words max_lessons) max_lessons))
         else Inr (slice_to lessons max_lessons))"

section \<open>Dates\<close>

text \<open>
  A \<^verbatim>\<open>datetime.datetime\<close>: the date as its proleptic Gregorian ordinal
  (\<^verbatim>\<open>toordinal()\<close>, from 1 for 0001-01-01 to 3652059 for 9999-12-31), the wall-clock time,
  and the offset of a fixed time zone in microseconds (\<open>None\<close> for a naive value).
  The library adds a \<^verbatim>\<open>timedelta\<close> to a date through the ordinal.
\<close>

record datetime =
  ordinal :: int
  hour :: int
  minute :: int
  second :: int
  microsecond :: int
  tzinfo :: "int option"

definition MAXORDINAL :: int where
  "MAXORDINAL = 3652059"

definition valid_datetime :: "datetime \<Rightarrow> bool" where
  "valid_datetime dt =
     (1 \<le> ordinal dt \<and> ordinal dt \<le> MAXORDINAL \<and> 0 \<le> hour dt \<and> hour dt < 24
      \<and> 0 \<le> minute dt \<and> minute dt < 60 \<and> 0 \<le> second dt \<and> second dt < 60
      \<and> 0 \<le> microsecond dt \<and> microsecond dt < 1000000)"


text \<open>
  \<^verbatim>\<open>dt0 + datetime.timedelta(weeks=i)\<close>: a \<^verbatim>\<open>timedelta\<close> holds at most 999999999 days, and the
  sum must be a date the type has.
\<close>

definition plus_weeks :: "datetime \<Rightarrow> nat \<Rightarrow> py_error + datetime" where
  "plus_weeks dt i =
     (if 7 * int i > 999999999 then Inl OverflowError
      else if 0 < ordinal dt + 7 * int i \<and> ordinal dt + 7 * int i \<le> MAXORDINAL
      then Inr (dt\<lparr>ordinal := ordinal dt + 7 * int i\<rparr>)
      else Inl OverflowError)"

text \<open>
  The position of a value on the time line, in microseconds: what the difference of two
  values of the same zone is the difference of.
\<close>

definition timestamp :: "datetime \<Rightarrow> int" where
  "timestamp dt =
     (((ordinal dt * 24 + hour dt) * 60 + minute dt) * 60 + second dt) * 1000000 + microsecond dt
       - (case tzinfo dt of None \<Rightarrow> 0 | Some off \<Rightarrow> off)"

definition week :: int where
  "week = 7 * 24 * 60 * 60 * 1000000"

definition time_of_day :: "datetime \<Rightarrow> int \<times> int \<times> int \<times> int \<times> int option" where
  "time_of_day dt = (hour dt, minute dt, second dt, microsecond dt, tzinfo dt)"

text \<open>
  The values \<^verbatim>\<open>event_dt\<close> takes in the calendar loop of \<^verbatim>\<open>main\<close>, from index \<open>i\<close> on: the
  loop stops at the first one that raises.
\<close>

fun event_times :: "datetime \<Rightarrow> nat \<Rightarrow> lesson list \<Rightarrow> py_error + datetime list" where
  "event_times dt0 i [] = Inr []"
| "event_times dt0 i (l # ls) =
     (case plus_weeks dt0 i of
        Inl err \<Rightarrow> Inl err
      | Inr event_dt \<Rightarrow>
          (case event_times dt0 (Suc i) ls of
             Inl err \<Rightarrow> Inl err
           | Inr ts \<Rightarrow> Inr (event_dt # ts)))"

section \<open>The writes of \<^verbatim>\<open>main\<close>\<close>

text \<open>\<^verbatim>\<open>d[key]\<close>: \<open>None\<close> is the \<^verbatim>\<open>KeyError\<close>.\<close>

fun item :: "pyval \<Rightarrow> string \<Rightarrow> pyval option" where
  "item (PDict d) key = map_of d key"
| "item v key = None"













section \<open>The directory sweep of \<^verbatim>\<open>main\<close>\<close>

text \<open>A directory: the names of its files, and its subdirectories by name, in the order the system lists them.\<close>

datatype fsdir = Dir (files: "string list") (subdirs: "(string \<times> fsdir) list")

text \<open>\<^verbatim>\<open>os.path.join(a, b)\<close> on POSIX.\<close>

definition path_join :: "string \<Rightarrow> string \<Rightarrow> string" where
  "path_join a b =
     (if b \<noteq> [] \<and> hd b = CHR ''/'' then b
      else if a = [] \<or> last a = CHR ''/'' then a @ b
      else a @ ''/'' @ b)"

text \<open>\<^verbatim>\<open>os.walk(top)\<close>, top down: a directory, then each of its subdirectories in turn.\<close>

fun walk :: "string \<Rightarrow> fsdir \<Rightarrow> (string \<times> string list \<times> string list) list" where
  "walk top_dir (Dir fs subs) =
     (top_dir, map fst subs, fs)
       # concat (map (\<lambda>(name, sub). walk (path_join top_dir name) sub) subs)"

text \<open>\<^verbatim>\<open>s.endswith(suffix)\<close>\<close>

definition endswith :: "string \<Rightarrow> string \<Rightarrow> bool" where
  "endswith s suffix = (length suffix \<le> length s \<and> drop (length s - length suffix) s = suffix)"

text \<open>The truth value of \<^verbatim>\<open>local_path\<close>: \<^verbatim>\<open>None\<close> and the empty string are false.\<close>

definition found :: "string option \<Rightarrow> bool" where
  "found local_path = (case local_path of None \<Rightarrow> False | Some p \<Rightarrow> p \<noteq> [])"

text \<open>
  \<^verbatim>\<open>for fname in files_in_dir\<close>: the result is \<^verbatim>\<open>local_path\<close> when the loop ends, by
  \<^verbatim>\<open>break\<close> or at the end of the list. \<open>abspath\<close> is \<^verbatim>\<open>os.path.abspath\<close>.
\<close>

fun sweep_files ::
  "(string \<Rightarrow> string) \<Rightarrow> string \<Rightarrow> string \<Rightarrow> string list \<Rightarrow> string option \<Rightarrow> string option"
where
  "sweep_files abspath file_name root [] local_path = local_path"
| "sweep_files abspath file_name root (fname # rest) local_path =
     (if fname = file_name \<or> endswith (lower fname) ''.pdf'' then
        (if fname = file_name then Some (abspath (path_join root fname))
         else if \<not> found local_path
         then sweep_files abspath file_name root rest (Some (abspath (path_join root fname)))
         else sweep_files abspath file_name root rest local_path)
      else sweep_files abspath file_name root rest local_path)"

text \<open>\<^verbatim>\<open>for root, dirs, files_in_dir in os.walk(DOWNLOAD_DIR)\<close>, with \<^verbatim>\<open>if local_path: break\<close>.\<close>

fun sweep_dirs ::
  "(string \<Rightarrow> string) \<Rightarrow> string \<Rightarrow> (string \<times> string list \<times> string list) list \<Rightarrow> string option
     \<Rightarrow> string option"
where
  "sweep_dirs abspath file_name [] local_path = local_path"
| "sweep_dirs abspath file_name ((root, dirs, files_in_dir) # rest) local_path =
     (let local_path' = sweep_files abspath file_name root files_in_dir local_path
      in if found local_path' then local_path' else sweep_dirs abspath file_name rest local_path')"

text \<open>Step 3 of the path resolution, entered with \<^verbatim>\<open>local_path\<close> not found.\<close>

definition sweep :: "(string \<Rightarrow> string) \<Rightarrow> string \<Rightarrow> string \<Rightarrow> fsdir \<Rightarrow> string option" where
  "sweep abspath download_dir file_name tree =
     sweep_dirs abspath file_name (walk download_dir tree) None"

section \<open>Properties of \<^verbatim>\<open>execute_tool\<close>\<close>

lemma recording_apply:
  "recording client c (s, seen) = (case client c s of (out, s') \<Rightarrow> (out, (s', seen @ [c])))"
  by (simp add: recording_def)

lemma item_result_dict:
  "item (result_dict a b c) ''ok'' = Some a"
  "item (result_dict a b c) ''data'' = Some b"
  "item (result_dict a b c) ''error'' = Some c"
  by (simp_all add: result_dict_def)

lemma length_forms: "length (forms t u a) = 6"
  by (simp add: forms_def)

lemma try_forms_first_success:
  "k < length fs \<Longrightarrow> \<forall>i<k. is_type_error (outcomes client fs s ! i)
     \<Longrightarrow> outcomes client fs s ! k = Returns resp
     \<Longrightarrow> \<exists>s'. try_forms (recording client) fs last_exc attempts (s, seen)
            = (Inr (normalize resp), (s', seen @ take (Suc k) fs))"
proof (induction fs arbitrary: k s last_exc attempts seen)
  case Nil
  then show ?case by simp
next
  case (Cons f fs)
  obtain out s1 where step: "client f s = (out, s1)" by (cases "client f s")
  show ?case
  proof (cases k)
    case 0
    with Cons.prems step have "out = Returns resp" by simp
    with step show ?thesis by (simp add: recording_apply 0)
  next
    case (Suc j)
    from Cons.prems(2) Suc step have "is_type_error out" by fastforce
    then obtain e where e: "out = Raises e" "cls e = TypeError" by (cases out) auto
    from Cons.prems Suc step have j: "j < length fs" "outcomes client fs s1 ! j = Returns resp"
      by simp_all
    have "\<forall>i<j. is_type_error (outcomes client fs s1 ! i)"
    proof (intro allI impI)
      fix i assume "i < j"
      then have "Suc i < k" using Suc by simp
      with Cons.prems(2) have "is_type_error (outcomes client (f # fs) s ! Suc i)" by blast
      with step show "is_type_error (outcomes client fs s1 ! i)" by simp
    qed
    from Cons.IH [OF j(1) this j(2)] obtain s' where
      "try_forms (recording client) fs (Some e) (attempts @ [(''TypeError'', message e)]) (s1, seen @ [f])
         = (Inr (normalize resp), (s', (seen @ [f]) @ take (Suc j) fs))" by blast
    with step e Suc show ?thesis by (simp add: recording_apply)
  qed
qed


lemma try_forms_result:
  "try_forms client fs last_exc attempts s = (Inr r, s')
     \<Longrightarrow> (\<exists>m. r = result_dict (PBool False) PNone (PStr m))
          \<or> (\<exists>c s0 s1 resp. client c s0 = (Returns resp, s1) \<and> r = normalize resp)"
proof (induction fs arbitrary: last_exc attempts s)
  case Nil
  then show ?case by auto
next
  case (Cons f fs)
  obtain out s1 where step: "client f s = (out, s1)" by (cases "client f s")
  show ?case
  proof (cases out)
    case (Returns resp)
    with step Cons.prems have "client f s = (Returns resp, s1) \<and> r = normalize resp" by simp
    then show ?thesis by blast
  next
    case (Raises e)
    show ?thesis
    proof (cases "cls e")
      case TypeError
      with step Raises Cons.prems Cons.IH show ?thesis by simp
    next
      case Exception
      with step Raises Cons.prems show ?thesis by auto
    next
      case BaseException
      with step Raises Cons.prems show ?thesis by simp
    qed
  qed
qed

text \<open>
  Claim C1, as amended. A result returned by \<^verbatim>\<open>execute_tool\<close> either was built by the wrapper
  itself on one of its two failure paths, and then \<open>ok\<close> is \<open>False\<close> and \<open>error\<close> is a
  string; or it was normalized from a response the client returned, and then \<open>ok\<close> and
  \<open>error\<close> are that response's \<^verbatim>\<open>successful\<close> (default \<open>True\<close>) and \<^verbatim>\<open>error\<close>
  (default \<open>None\<close>), each copied without regard to the other.
\<close>

theorem execute_tool_ok_error:
  assumes "execute_tool client user_id tool_slug arguments s = (Inr r, s')"
  shows "(item r ''ok'' = Some (PBool False) \<and> (\<exists>m. item r ''error'' = Some (PStr m)))
       \<or> (\<exists>c s0 s1 d. client c s0 = (Returns (PDict d), s1)
             \<and> item r ''ok'' = Some (dict_get d ''successful'' (PBool True))
             \<and> item r ''error'' = Some (dict_get d ''error'' PNone))
       \<or> (\<exists>c s0 s1 resp. client c s0 = (Returns resp, s1) \<and> (\<forall>d. resp \<noteq> PDict d)
             \<and> item r ''ok'' = Some (getattr resp ''successful'' (PBool True))
             \<and> item r ''error'' = Some (getattr resp ''error'' PNone))"
proof -
  from assms try_forms_result [of client "forms tool_slug user_id arguments" None "[]" s r s']
  consider m where "r = result_dict (PBool False) PNone (PStr m)"
    | c s0 s1 resp where "client c s0 = (Returns resp, s1)" "r = normalize resp"
    by (auto simp: execute_tool_def)
  then show ?thesis
  proof cases
    case 1
    then show ?thesis by (simp add: item_result_dict)
  next
    case 2
    show ?thesis
    proof (cases "\<exists>d. resp = PDict d")
      case True
      then obtain d where "resp = PDict d" by blast
      with 2 have "client c s0 = (Returns (PDict d), s1)
             \<and> item r ''ok'' = Some (dict_get d ''successful'' (PBool True))
             \<and> item r ''error'' = Some (dict_get d ''error'' PNone)"
        by (simp add: item_result_dict)
      then show ?thesis by blast
    next
      case False
      with 2 have "client c s0 = (Returns resp, s1) \<and> (\<forall>d. resp \<noteq> PDict d)
             \<and> item r ''ok'' = Some (getattr resp ''successful'' (PBool True))
             \<and> item r ''error'' = Some (getattr resp ''error'' PNone)"
        by (cases resp) (simp_all add: item_result_dict)
      then show ?thesis by blast
    qed
  qed
qed

theorem execute_tool_ok_error_witness:
  "item (PDict [(''ok'', PBool False), (''data'', PNone), (''error'', PStr (''boom'' @ [CHR 0x0A] @ ''tb''))]) ''ok''
      = Some (PBool False)
   \<and> execute_tool (\<lambda>c s. (Raises (Exc Exception ''boom'' ''tb''), s)) PNone ''T'' (PDict []) ()
      = (Inr (PDict [(''ok'', PBool False), (''data'', PNone),
                     (''error'', PStr (''boom'' @ [CHR 0x0A] @ ''tb''))]), ())"
proof -
  have h: "execute_tool (\<lambda>c s. (Raises (Exc Exception ''boom'' ''tb''), s)) PNone ''T'' (PDict []) ()
      = (Inr (PDict [(''ok'', PBool False), (''data'', PNone),
                     (''error'', PStr (''boom'' @ [CHR 0x0A] @ ''tb''))]), ())"
    by (simp add: execute_tool_def forms_def result_dict_def)
  from execute_tool_ok_error [OF h] h show ?thesis by simp
qed

text \<open>
  Claim C1 as stated fails: a response \<^verbatim>\<open>{"successful": False}\<close> with no \<^verbatim>\<open>error\<close>
  key gives a result whose \<open>ok\<close> is \<open>False\<close> and whose \<open>error\<close> is \<open>None\<close>.
\<close>

theorem execute_tool_passes_failure_without_error:
  "execute_tool (\<lambda>c s. (Returns (PDict [(''successful'', PBool False)]), s)) PNone ''T'' (PDict []) ()
     = (Inr (PDict [(''ok'', PBool False), (''data'', PDict [(''successful'', PBool False)]),
                    (''error'', PNone)]), ())"
  by (simp add: execute_tool_def forms_def result_dict_def dict_get_def)



text \<open>
  Claim C3. When the first strategy raises an error that is an \<^verbatim>\<open>Exception\<close> and not a
  \<^verbatim>\<open>TypeError\<close>, \<^verbatim>\<open>execute_tool\<close> returns at once a result with \<open>ok\<close> \<open>False\<close>, whose error
  message is the exception's text, a line feed and the formatted traceback; the client has
  received the first strategy and no other.
\<close>

theorem execute_tool_fatal_error:
  assumes "client (forms tool_slug user_id arguments ! 0) s = (Raises e, s')"
    and "cls e = Exception"
  shows "execute_tool (recording client) user_id tool_slug arguments (s, [])
           = (Inr (result_dict (PBool False) PNone (PStr (message e @ [CHR 0x0A] @ trace e))),
              (s', [forms tool_slug user_id arguments ! 0]))"
  using assms by (simp add: execute_tool_def forms_def recording_apply)

theorem execute_tool_fatal_error_witness:
  "execute_tool (recording (\<lambda>c s. (Raises (Exc Exception ''quota exceeded'' ''Traceback''), Suc s)))
       PNone ''T'' (PDict []) (0, [])
     = (Inr (PDict [(''ok'', PBool False), (''data'', PNone),
                    (''error'', PStr (''quota exceeded'' @ [CHR 0x0A] @ ''Traceback''))]),
        (Suc 0, [Call [] [(''slug'', PStr ''T''), (''user_id'', PNone), (''arguments'', PDict [])]]))"
  using execute_tool_fatal_error [of "\<lambda>c s. (Raises (Exc Exception ''quota exceeded'' ''Traceback''), Suc s)"
      "''T''" PNone "PDict []" 0 "Exc Exception ''quota exceeded'' ''Traceback''" "Suc 0"]
  by (simp add: forms_def result_dict_def)

text \<open>
  Claim C4, as amended. Whichever strategy returns it, when the response is not a
  dictionary: if it has a \<^verbatim>\<open>data\<close> attribute whose value is true, the result's \<open>data\<close> is
  that value; if it has no \<^verbatim>\<open>data\<close> attribute, or has one whose value is \<open>None\<close>, the
  result's \<open>data\<close> is the whole response.
\<close>

theorem execute_tool_object_data:
  assumes "k < 6"
    and "\<forall>i<k. is_type_error (outcomes client (forms tool_slug user_id arguments) s ! i)"
    and "outcomes client (forms tool_slug user_id arguments) s ! k = Returns resp"
    and "\<forall>d. resp \<noteq> PDict d"
  shows "\<exists>r s'. execute_tool (recording client) user_id tool_slug arguments (s, [])
                  = (Inr r, (s', take (Suc k) (forms tool_slug user_id arguments)))
           \<and> (\<forall>v. attribute resp ''data'' = Some v \<and> truthy v \<longrightarrow> item r ''data'' = Some v)
           \<and> (attribute resp ''data'' = None \<or> attribute resp ''data'' = Some PNone
                \<longrightarrow> item r ''data'' = Some resp)"
proof -
  from try_forms_first_success
         [of k "forms tool_slug user_id arguments" client s resp None "[]" "[]"] assms(1-3)
  obtain s' where run: "execute_tool (recording client) user_id tool_slug arguments (s, [])
      = (Inr (normalize resp), (s', take (Suc k) (forms tool_slug user_id arguments)))"
    by (auto simp: execute_tool_def length_forms)
  from assms(4) have n: "normalize resp
      = result_dict (getattr resp ''successful'' (PBool True))
                    (py_or (getattr resp ''data'' PNone) resp)
                    (getattr resp ''error'' PNone)"
    by (cases resp) simp_all
  have a: "item (normalize resp) ''data'' = Some v" if "attribute resp ''data'' = Some v" "truthy v" for v
    using that by (simp add: n item_result_dict getattr_def py_or_def)
  have b: "item (normalize resp) ''data'' = Some resp"
    if "attribute resp ''data'' = None \<or> attribute resp ''data'' = Some PNone"
    using that by (auto simp: n item_result_dict getattr_def py_or_def)
  from run a b show ?thesis by blast
qed

theorem execute_tool_object_data_witness:
  "\<exists>r s'. execute_tool
       (recording (\<lambda>c s. (if positional c = [] then Raises (Exc TypeError ''unexpected keyword'' [])
                           else Returns (PObj [(''data'', PList [PInt 1])]), s)))
       PNone ''T'' (PDict []) ((), [])
         = (Inr r, (s', take 3 (forms ''T'' PNone (PDict []))))
      \<and> item r ''data'' = Some (PList [PInt 1])"
proof -
  let ?C = "\<lambda>c (s::unit). (if positional c = [] then Raises (Exc TypeError ''unexpected keyword'' [])
                           else Returns (PObj [(''data'', PList [PInt 1])]), s)"
  let ?fs = "forms ''T'' PNone (PDict [])"
  have h1: "(2::nat) < 6" by simp
  have h2: "\<forall>i<2. is_type_error (outcomes ?C ?fs () ! i)"
    by (auto simp: less_2_cases_iff forms_def)
  have h3: "outcomes ?C ?fs () ! 2 = Returns (PObj [(''data'', PList [PInt 1])])"
    by (simp add: forms_def numeral_2_eq_2)
  have h4: "\<forall>d. PObj [(''data'', PList [PInt 1])] \<noteq> PDict d" by simp
  from execute_tool_object_data [OF h1 h2 h3 h4] show ?thesis
    by (simp add: numeral_3_eq_3 numeral_2_eq_2)
qed

text \<open>
  Claim C4 as stated fails: an object that carries \<^verbatim>\<open>data = None\<close> does not get \<open>None\<close> as
  the result's \<open>data\<close>, it gets the whole response (\<^verbatim>\<open>getattr(resp, "data", None) or resp\<close>).
\<close>

theorem execute_tool_object_data_none:
  "attribute (PObj [(''data'', PNone)]) ''data'' = Some PNone
   \<and> execute_tool (\<lambda>c s. (Returns (PObj [(''data'', PNone)]), s)) PNone ''T'' (PDict []) ()
      = (Inr (PDict [(''ok'', PBool True), (''data'', PObj [(''data'', PNone)]), (''error'', PNone)]), ())"
  by (simp add: execute_tool_def forms_def result_dict_def py_or_def getattr_def)




section \<open>Properties of \<^verbatim>\<open>parse_lessons\<close>\<close>

lemma match_header_None: "match_header ln = None \<longleftrightarrow> \<not> is_header ln"
  by (auto simp: match_header_def is_header_def Let_def split: option.splits)

lemma match_header_Some:
  "match_header ln = Some (header, g2) \<Longrightarrow> is_header ln \<and> fst (the (week_prefix ln)) = header"
  by (auto simp: match_header_def is_header_def Let_def split: option.splits)

lemma filter_takeWhile_not: "filter P (takeWhile (\<lambda>x. \<not> P x) xs) = []"
  by (induction xs) auto

lemma filter_dropWhile_not: "filter P (dropWhile (\<lambda>x. \<not> P x) xs) = filter P xs"
proof -
  have "filter P xs = filter P (takeWhile (\<lambda>x. \<not> P x) xs @ dropWhile (\<lambda>x. \<not> P x) xs)"
    by simp
  also have "\<dots> = filter P (dropWhile (\<lambda>x. \<not> P x) xs)"
    unfolding filter_append filter_takeWhile_not by simp
  finally show ?thesis by simp
qed

lemma scan_lines_titles:
  "map fst (scan_lines lns) = map (\<lambda>ln. fst (the (week_prefix ln))) (filter is_header lns)"
proof (induction lns rule: scan_lines.induct)
  case 1
  show ?case by simp
next
  case (2 ln lns)
  show ?case
  proof (cases "match_header ln")
    case None
    then have "\<not> is_header ln" by (simp add: match_header_None)
    with None 2(1) [OF None] show ?thesis by simp
  next
    case (Some hg)
    obtain header g2 where hg: "hg = (header, g2)" by (cases hg)
    from Some hg have h: "is_header ln" "fst (the (week_prefix ln)) = header"
      using match_header_Some by blast+
    from 2(2) [OF Some hg [symmetric] refl refl]
    have "map fst (scan_lines (dropWhile (\<lambda>x. \<not> is_header x) lns))
            = map (\<lambda>ln. fst (the (week_prefix ln))) (filter is_header lns)"
      by (simp add: filter_dropWhile_not)
    with Some hg h show ?thesis by (simp add: Let_def)
  qed
qed

lemma scan_lines_Nil_iff: "scan_lines lns = [] \<longleftrightarrow> filter is_header lns = []"
proof -
  have "scan_lines lns = [] \<longleftrightarrow> map fst (scan_lines lns) = []" by simp
  also have "\<dots> \<longleftrightarrow> filter is_header lns = []" unfolding scan_lines_titles by simp
  finally show ?thesis .
qed

text \<open>
  Claim C5. When at least one of the stripped, non-blank lines of the text matches the header
  pattern and \<open>max_lessons\<close> is not negative, \<^verbatim>\<open>parse_lessons\<close> returns the records of the
  header scan cut to the first \<open>max_lessons\<close>: the scan is not empty, so the equal-chunk
  branch is not entered, and it has one record for each header line, titled with the
  header's group 1, in the order of the lines.
\<close>

theorem parse_lessons_headers:
  assumes "\<exists>ln \<in> set (stripped_lines text). is_header ln" and "0 \<le> max_lessons"
  shows "parse_lessons text max_lessons = Inr (take (nat max_lessons) (scan_lines (stripped_lines text)))
       \<and> scan_lines (stripped_lines text) \<noteq> []
       \<and> map fst (scan_lines (stripped_lines text))
           = map (\<lambda>ln. fst (the (week_prefix ln))) (filter is_header (stripped_lines text))"
proof -
  from assms(1) have "filter is_header (stripped_lines text) \<noteq> []"
    by (simp add: filter_empty_conv)
  then have ne: "scan_lines (stripped_lines text) \<noteq> []" by (simp add: scan_lines_Nil_iff)
  with assms(2) have "parse_lessons text max_lessons
      = Inr (take (nat max_lessons) (scan_lines (stripped_lines text)))"
    by (simp add: parse_lessons_def slice_to_def Let_def)
  with ne show ?thesis by (simp add: scan_lines_titles)
qed

theorem parse_lessons_headers_witness:
  "parse_lessons (''Week 1: Intro'' @ [CHR 0x0A] @ ''Hello'' @ [CHR 0x0A] @ ''Week 2: Loops''
                    @ [CHR 0x0A] @ ''World'') 12
     = Inr [(''Week 1'', ''Intro Hello''), (''Week 2'', ''Loops World'')]"
proof -
  let ?text = "''Week 1: Intro'' @ [CHR 0x0A] @ ''Hello'' @ [CHR 0x0A] @ ''Week 2: Loops''
                 @ [CHR 0x0A] @ ''World''"
  have h1: "\<exists>ln \<in> set (stripped_lines ?text). is_header ln" by code_simp
  have h2: "(0::int) \<le> 12" by simp
  have sc: "scan_lines (stripped_lines ?text)
              = [(''Week 1'', ''Intro Hello''), (''Week 2'', ''Loops World'')]" by code_simp
  from parse_lessons_headers [OF h1 h2] sc show ?thesis by simp
qed

lemma split_from_word:
  "\<forall>c \<in> set w. \<not> is_space c \<Longrightarrow> split_from cur (w @ rest) = split_from (cur @ w) rest"
  by (induction w arbitrary: cur) auto

lemma split_from_words:
  "w \<in> set (split_from cur str) \<Longrightarrow> \<forall>c \<in> set cur. \<not> is_space c
     \<Longrightarrow> w \<noteq> [] \<and> (\<forall>c \<in> set w. \<not> is_space c)"
proof (induction str arbitrary: cur)
  case Nil
  then show ?case by (auto split: if_splits)
next
  case (Cons c cs)
  show ?case
  proof (cases "is_space c")
    case True
    with Cons.prems have "w = cur \<and> cur \<noteq> [] \<or> w \<in> set (split_from [] cs)"
      by (auto split: if_splits)
    then show ?thesis
    proof
      assume "w = cur \<and> cur \<noteq> []"
      with Cons.prems(2) show ?thesis by simp
    next
      assume "w \<in> set (split_from [] cs)"
      from Cons.IH [OF this] show ?thesis by simp
    qed
  next
    case False
    with Cons.prems have "w \<in> set (split_from (cur @ [c]) cs)" by simp
    from Cons.IH [OF this] False Cons.prems(2) show ?thesis by simp
  qed
qed

lemma is_space_blank: "is_space (CHR '' '')"
  by (simp add: is_space_def)

lemma split_join:
  "\<forall>w \<in> set ws. w \<noteq> [] \<and> (\<forall>c \<in> set w. \<not> is_space c) \<Longrightarrow> split (join '' '' ws) = ws"
proof (induction "'' ''" ws rule: join.induct)
  case 1
  show ?case by (simp add: split_def)
next
  case (2 x)
  then have "split_from [] (x @ []) = split_from ([] @ x) []"
    by (intro split_from_word) simp
  with 2 show ?case by (simp add: split_def)
next
  case (3 x y ys)
  from 3(2) have x: "x \<noteq> []" "\<forall>c \<in> set x. \<not> is_space c" by simp_all
  from 3 have IH: "split (join '' '' (y # ys)) = y # ys" by simp
  have "split (join '' '' (x # y # ys)) = split_from [] (x @ ('' '' @ join '' '' (y # ys)))"
    by (simp add: split_def)
  also have "\<dots> = split_from ([] @ x) ('' '' @ join '' '' (y # ys))"
    using x(2) by (rule split_from_word)
  also have "\<dots> = x # split_from [] (join '' '' (y # ys))"
    using x(1) is_space_blank by simp
  finally show ?case using IH by (simp add: split_def)
qed

lemma concat_slices:
  "concat (map (\<lambda>k. drop (k * c) (take (k * c + c) xs)) [0..<j]) = take (j * c) xs"
proof (induction j)
  case 0
  show ?case by simp
next
  case (Suc j)
  have "take (j * c) xs @ drop (j * c) (take (j * c + c) xs) = take (j * c + c) xs"
  proof -
    have "take (j * c) xs = take (j * c) (take (j * c + c) xs)" by (simp add: min_def)
    then show ?thesis by (metis append_take_drop_id)
  qed
  with Suc show ?case by (simp add: add.commute)
qed

lemma set_slice: "set (slice xs a b) \<subseteq> set xs"
  unfolding slice_def by (meson set_drop_subset set_take_subset subset_trans)

lemma chunks_cover:
  assumes "0 < max_lessons" and "0 \<le> c"
  shows "concat (map (\<lambda>k. slice W (int k * c)
                     (if int k < max_lessons - 1 then int k * c + c else int (length W)))
                   [0..<nat max_lessons]) = W"
proof -
  define j where "j = nat (max_lessons - 1)"
  have m: "nat max_lessons = Suc j" using assms(1) by (simp add: j_def)
  have inner: "map (\<lambda>k. slice W (int k * c)
                     (if int k < max_lessons - 1 then int k * c + c else int (length W))) [0..<j]
        = map (\<lambda>k. drop (k * nat c) (take (k * nat c + nat c) W)) [0..<j]"
  proof (rule map_cong [OF refl])
    fix k assume "k \<in> set [0..<j]"
    then have lt: "int k < max_lessons - 1" by (simp add: j_def)
    have a: "nat (int k * c) = k * nat c" using assms(2) by (simp add: nat_mult_distrib)
    have b: "nat (int k * c + c) = k * nat c + nat c"
      using assms(2) by (simp add: nat_add_distrib nat_mult_distrib)
    from lt a b show "slice W (int k * c)
            (if int k < max_lessons - 1 then int k * c + c else int (length W))
          = drop (k * nat c) (take (k * nat c + nat c) W)"
      by (simp add: slice_def)
  qed
  have lastk: "slice W (int j * c) (if int j < max_lessons - 1 then int j * c + c else int (length W))
        = drop (j * nat c) W"
    using assms by (simp add: slice_def j_def nat_mult_distrib)
  have "concat (map (\<lambda>k. slice W (int k * c)
                     (if int k < max_lessons - 1 then int k * c + c else int (length W)))
                   [0..<Suc j])
        = concat (map (\<lambda>k. slice W (int k * c)
                     (if int k < max_lessons - 1 then int k * c + c else int (length W))) [0..<j])
          @ slice W (int j * c) (if int j < max_lessons - 1 then int j * c + c else int (length W))"
    by simp
  also have "\<dots> = take (j * nat c) W @ drop (j * nat c) W"
    unfolding inner lastk concat_slices ..
  finally show ?thesis by (simp add: m)
qed

lemma scan_lines_no_header:
  "\<forall>ln \<in> set lns. \<not> is_header ln \<Longrightarrow> scan_lines lns = []"
  by (simp add: scan_lines_Nil_iff filter_empty_conv)

text \<open>
  Claim C6. When no line matches the header pattern, the text has a word and \<open>max_lessons\<close> is
  positive, \<^verbatim>\<open>parse_lessons\<close> returns exactly \<open>max_lessons\<close> records; record \<open>k\<close> is titled
  \<^verbatim>\<open>Week k+1\<close>; the words of the bodies, taken in order, are the words of the text, none
  dropped and none repeated; and the body of the last record holds every word from the
  start of the last chunk to the end.
\<close>

theorem parse_lessons_fallback:
  assumes "\<forall>ln \<in> set (stripped_lines text). \<not> is_header ln"
    and "split text \<noteq> []"
    and "0 < max_lessons"
  shows "\<exists>lessons. parse_lessons text max_lessons = Inr lessons
           \<and> length lessons = nat max_lessons
           \<and> map fst lessons = map (\<lambda>k. ''Week '' @ str_nat (k + 1)) [0..<nat max_lessons]
           \<and> concat (map (\<lambda>l. split (snd l)) lessons) = split text
           \<and> snd (last lessons)
               = join '' '' (drop (nat ((max_lessons - 1)
                                    * max (int (length (split text)) div max_lessons) 1))
                               (split text))"
proof -
  define W where "W = split text"
  define c where "c = max (int (length W) div max_lessons) 1"
  define body where "body = (\<lambda>k. slice W (int k * c)
                     (if int k < max_lessons - 1 then int k * c + c else int (length W)))"
  define lessons where "lessons = equal_chunks W max_lessons"
  have c0: "0 \<le> c" by (simp add: c_def)
  have lessons_eq: "lessons = map (\<lambda>k. (''Week '' @ str_nat (k + 1), join '' '' (body k)))
                               [0..<nat max_lessons]"
    by (simp add: lessons_def equal_chunks_def chunk_lesson_def Let_def c_def body_def)
  have len: "length lessons = nat max_lessons" by (simp add: lessons_eq)
  have res: "parse_lessons text max_lessons = Inr lessons"
    using assms scan_lines_no_header [OF assms(1)] len
    by (simp add: parse_lessons_def Let_def slice_to_def W_def lessons_def)
  have titles: "map fst lessons = map (\<lambda>k. ''Week '' @ str_nat (k + 1)) [0..<nat max_lessons]"
    by (simp add: lessons_eq comp_def)
  have words: "\<forall>w \<in> set W. w \<noteq> [] \<and> (\<forall>ch \<in> set w. \<not> is_space ch)"
    using split_from_words [of _ "[]" "text"] by (simp add: W_def split_def)
  have body_split: "split (join '' '' (body k)) = body k" for k
  proof (rule split_join)
    show "\<forall>w \<in> set (body k). w \<noteq> [] \<and> (\<forall>ch \<in> set w. \<not> is_space ch)"
      using words set_slice [of W] unfolding body_def by blast
  qed
  have "concat (map (\<lambda>l. split (snd l)) lessons) = concat (map body [0..<nat max_lessons])"
    by (simp add: lessons_eq comp_def body_split)
  also have "\<dots> = W"
    unfolding body_def using chunks_cover [OF assms(3) c0] .
  finally have cover: "concat (map (\<lambda>l. split (snd l)) lessons) = split text"
    by (simp add: W_def)
  have m: "nat max_lessons = Suc (nat (max_lessons - 1))" using assms(3) by simp
  have "last lessons = (''Week '' @ str_nat (nat (max_lessons - 1) + 1),
                        join '' '' (body (nat (max_lessons - 1))))"
    unfolding lessons_eq m by simp
  moreover have "body (nat (max_lessons - 1)) = drop (nat ((max_lessons - 1) * c)) W"
    using assms(3) by (simp add: body_def slice_def)
  ultimately have lastb: "snd (last lessons)
       = join '' '' (drop (nat ((max_lessons - 1)
                                    * max (int (length (split text)) div max_lessons) 1))
                               (split text))"
    by (simp add: c_def W_def)
  from res len titles cover lastb show ?thesis by blast
qed

theorem parse_lessons_fallback_witness:
  "parse_lessons ''a b c d e f g'' 3
     = Inr [(''Week 1'', ''a b''), (''Week 2'', ''c d''), (''Week 3'', ''e f g'')]"
proof -
  have h1: "\<forall>ln \<in> set (stripped_lines ''a b c d e f g''). \<not> is_header ln" by code_simp
  have h2: "split ''a b c d e f g'' \<noteq> []" by code_simp
  have h3: "(0::int) < 3" by simp
  from parse_lessons_fallback [OF h1 h2 h3] obtain lessons where
    "parse_lessons ''a b c d e f g'' 3 = Inr lessons" by blast
  moreover have "parse_lessons ''a b c d e f g'' 3
     = Inr [(''Week 1'', ''a b''), (''Week 2'', ''c d''), (''Week 3'', ''e f g'')]"
    by code_simp
  ultimately show ?thesis by simp
qed

section \<open>Properties of the schedule and of the directory sweep\<close>

lemma plus_weeks_in_range:
  "1 \<le> ordinal dt0 \<Longrightarrow> ordinal dt0 + 7 * int i \<le> MAXORDINAL
     \<Longrightarrow> plus_weeks dt0 i = Inr (dt0\<lparr>ordinal := ordinal dt0 + 7 * int i\<rparr>)"
  by (simp add: plus_weeks_def MAXORDINAL_def)

lemma event_times_in_range:
  "1 \<le> ordinal dt0 \<Longrightarrow> ordinal dt0 + 7 * (int i + int (length ls) - 1) \<le> MAXORDINAL
     \<Longrightarrow> event_times dt0 i ls
           = Inr (map (\<lambda>k. dt0\<lparr>ordinal := ordinal dt0 + 7 * int k\<rparr>) [i..<i + length ls])"
proof (induction ls arbitrary: i)
  case Nil
  show ?case by simp
next
  case (Cons l ls)
  from Cons.prems have "ordinal dt0 + 7 * int i \<le> MAXORDINAL" by simp
  with Cons.prems(1) have pw: "plus_weeks dt0 i = Inr (dt0\<lparr>ordinal := ordinal dt0 + 7 * int i\<rparr>)"
    by (rule plus_weeks_in_range)
  from Cons.prems have "ordinal dt0 + 7 * (int (Suc i) + int (length ls) - 1) \<le> MAXORDINAL"
    by simp
  from Cons.IH [OF Cons.prems(1) this]
  have IH: "event_times dt0 (Suc i) ls
              = Inr (map (\<lambda>k. dt0\<lparr>ordinal := ordinal dt0 + 7 * int k\<rparr>) [Suc i..<Suc i + length ls])" .
  have upt: "[i..<i + length (l # ls)] = i # [Suc i..<Suc i + length ls]"
    by (subst upt_rec) simp
  show ?case
    by (simp only: event_times.simps pw IH upt sum.case list.map)
qed

lemma timestamp_shift:
  "timestamp (dt\<lparr>ordinal := ordinal dt + 7 * int k\<rparr>) = timestamp dt + int k * week"
  by (simp add: timestamp_def week_def algebra_simps)

lemma time_of_day_shift: "time_of_day (dt\<lparr>ordinal := n\<rparr>) = time_of_day dt"
  by (simp add: time_of_day_def)

text \<open>
  Claim C7, as amended. For a non-empty lesson list and an anchor whose last event,
  \<open>length lessons - 1\<close> weeks later, is still a date the type has (not after 9999-12-31), the
  calendar loop computes one time per lesson; the \<open>k\<close>-th is the anchor plus \<open>k\<close> weeks, with
  the anchor's time of day and zone, and each is exactly one week after the one before.
\<close>

theorem event_times_weekly:
  assumes "lessons \<noteq> []" and "valid_datetime dt0"
    and "ordinal dt0 + 7 * (int (length lessons) - 1) \<le> MAXORDINAL"
  shows "\<exists>ts. event_times dt0 0 lessons = Inr ts \<and> length ts = length lessons
           \<and> (\<forall>k < length lessons. timestamp (ts ! k) = timestamp dt0 + int k * week
                  \<and> time_of_day (ts ! k) = time_of_day dt0)
           \<and> (\<forall>k. Suc k < length lessons \<longrightarrow>
                  timestamp (ts ! Suc k) - timestamp (ts ! k) = week
                  \<and> timestamp (ts ! k) < timestamp (ts ! Suc k))"
proof -
  define ts where "ts = map (\<lambda>k. dt0\<lparr>ordinal := ordinal dt0 + 7 * int k\<rparr>) [0..<length lessons]"
  from assms(2) have o1: "1 \<le> ordinal dt0" by (simp add: valid_datetime_def)
  from assms(3) have "ordinal dt0 + 7 * (int 0 + int (length lessons) - 1) \<le> MAXORDINAL" by simp
  from event_times_in_range [OF o1 this] have run: "event_times dt0 0 lessons = Inr ts"
    by (simp add: ts_def)
  have len: "length ts = length lessons" by (simp add: ts_def)
  have at: "timestamp (ts ! k) = timestamp dt0 + int k * week
              \<and> time_of_day (ts ! k) = time_of_day dt0" if "k < length lessons" for k
    using that by (simp add: ts_def timestamp_shift time_of_day_shift)
  have step: "timestamp (ts ! Suc k) - timestamp (ts ! k) = week
                \<and> timestamp (ts ! k) < timestamp (ts ! Suc k)" if "Suc k < length lessons" for k
  proof -
    from that have "k < length lessons" by simp
    with at [of k] at [of "Suc k"] that
    have "timestamp (ts ! Suc k) = timestamp (ts ! k) + week" by (simp add: algebra_simps)
    then show ?thesis by (simp add: week_def)
  qed
  from run len at step show ?thesis by blast
qed

theorem event_times_weekly_witness:
  "event_times \<lparr>ordinal = 738893, hour = 9, minute = 0, second = 0, microsecond = 0, tzinfo = None\<rparr>
       0 [(''Week 1'', ''a''), (''Week 2'', ''b'')]
     = Inr [\<lparr>ordinal = 738893, hour = 9, minute = 0, second = 0, microsecond = 0, tzinfo = None\<rparr>,
            \<lparr>ordinal = 738900, hour = 9, minute = 0, second = 0, microsecond = 0, tzinfo = None\<rparr>]"
proof -
  let ?dt0 = "\<lparr>ordinal = 738893, hour = 9, minute = 0, second = 0, microsecond = 0, tzinfo = None\<rparr>"
  let ?ls = "[(''Week 1'', ''a''), (''Week 2'', ''b'')]"
  have h1: "?ls \<noteq> []" by simp
  have h2: "valid_datetime ?dt0" by (simp add: valid_datetime_def MAXORDINAL_def)
  have h3: "ordinal ?dt0 + 7 * (int (length ?ls) - 1) \<le> MAXORDINAL" by (simp add: MAXORDINAL_def)
  from event_times_weekly [OF h1 h2 h3] obtain ts where "event_times ?dt0 0 ?ls = Inr ts" by blast
  moreover have "event_times ?dt0 0 ?ls
     = Inr [\<lparr>ordinal = 738893, hour = 9, minute = 0, second = 0, microsecond = 0, tzinfo = None\<rparr>,
            \<lparr>ordinal = 738900, hour = 9, minute = 0, second = 0, microsecond = 0, tzinfo = None\<rparr>]"
    by (simp add: plus_weeks_def MAXORDINAL_def)
  ultimately show ?thesis by simp
qed

text \<open>
  Claim C7 as stated fails for an anchor in the last weeks of the year 9999: with the
  anchor on 9999-12-31 and two lessons, the second addition raises \<^verbatim>\<open>OverflowError\<close>.
\<close>

theorem event_times_overflow:
  "valid_datetime \<lparr>ordinal = 3652059, hour = 9, minute = 0, second = 0, microsecond = 0, tzinfo = None\<rparr>
   \<and> event_times \<lparr>ordinal = 3652059, hour = 9, minute = 0, second = 0, microsecond = 0, tzinfo = None\<rparr>
        0 [(''Week 1'', ''a''), (''Week 2'', ''b'')] = Inl OverflowError"
  by (simp add: valid_datetime_def plus_weeks_def MAXORDINAL_def)

text \<open>
  Claim C8 does not hold of the code. The download directory has \<^verbatim>\<open>notes.pdf\<close> at its top
  and \<^verbatim>\<open>syllabus.pdf\<close> in a subdirectory; the sweep takes \<^verbatim>\<open>notes.pdf\<close> and stops after
  the first directory (\<^verbatim>\<open>if local_path: break\<close>), before the walk reaches the file with the
  expected name.
\<close>

theorem sweep_stops_at_first_directory:
  "sweep (\<lambda>p. p) ''/srv/downloads'' ''syllabus.pdf''
       (Dir [''notes.pdf''] [(''drive'', Dir [''syllabus.pdf''] [])])
     = Some ''/srv/downloads/notes.pdf''"
  by (simp add: sweep_def path_join_def endswith_def lower_def lower_char_def found_def)

section \<open>Properties of the writes of \<^verbatim>\<open>main\<close>\<close>











end
